theory Spec2Isabelle
  imports Complex_Main "HOL-Library.Word"
begin

section \<open>The orchestration core of traffic.py\<close>

text \<open>
  The development follows \<^verbatim>\<open>src/traffic.py\<close>: the camera callback and the image
  saver thread, the telemetry ring, the watchdog, the staging and triggering of crossing
  walkers in the main loop, and the cleanup of the \<^verbatim>\<open>finally\<close> block.

  Python floats (wall-clock times, distances, speeds) are read as real numbers and Python
  integers as \<open>int\<close>. The simulator and pygame are outside the program: every value they
  return, and whether a call to them raises, is an input of the model. Calls that the
  source leaves outside any \<^verbatim>\<open>try\<close> of the loop body (event polling, sleeping,
  rendering, the clock) are taken to return normally.
\<close>

subsection \<open>Exceptions\<close>

datatype pyerror =
    AttributeError
  | ValueError
  | UnboundLocalError
  | RuntimeError

subsection \<open>collections.deque with a maximum length\<close>

text \<open>
  \<^verbatim>\<open>deque(maxlen=C)\<close>: appending to a deque that already holds \<open>C\<close> items discards
  the item at the left end; a deque of maximum length 0 stays empty.
\<close>

record 'a deque =
  maxlen :: nat
  items :: "'a list"

definition deque_new :: "nat \<Rightarrow> 'a deque" where
  "deque_new c = \<lparr>maxlen = c, items = []\<rparr>"

definition deque_append :: "'a \<Rightarrow> 'a deque \<Rightarrow> 'a deque" where
  "deque_append v d =
     (if maxlen d = 0 then d
      else if maxlen d \<le> length (items d) then d\<lparr>items := tl (items d) @ [v]\<rparr>
      else d\<lparr>items := items d @ [v]\<rparr>)"

text \<open>
  Assigning to an attribute of a deque object. \<^verbatim>\<open>collections.deque\<close> is a built-in
  type whose instances carry no \<^verbatim>\<open>__dict__\<close>: its methods are read-only and it has no
  writable attribute, so the assignment \<^verbatim>\<open>d.name = value\<close> raises AttributeError
  for every name (for \<^verbatim>\<open>append\<close>: "'collections.deque' object attribute 'append' is
  read-only").
\<close>

definition deque_setattr :: "'a deque \<Rightarrow> string \<Rightarrow> pyerror + 'a deque" where
  "deque_setattr d name = Inl AttributeError"

definition appends :: "'a list \<Rightarrow> 'a deque \<Rightarrow> 'a deque" where
  "appends vs d = foldl (\<lambda>acc v. deque_append v acc) d vs"

definition MAX_TELEMETRY_ROWS :: nat where
  "MAX_TELEMETRY_ROWS = 20000"

subsection \<open>Configuration (lines 27-49)\<close>

definition path_join :: "string \<Rightarrow> string \<Rightarrow> string" where
  \<comment> \<open>\<^verbatim>\<open>os.path.join\<close> of two components, with the separator \<^verbatim>\<open>/\<close>\<close>
  "path_join a b =
     (if take 1 b = ''/'' then b
      else if a = [] \<or> last a = CHR ''/'' then a @ b
      else a @ ''/'' @ b)"

definition OUT_DIR :: string where
  "OUT_DIR = ''carla_dataset''"

definition FRONT_DIR :: string where
  "FRONT_DIR = path_join OUT_DIR ''front_camera''"

definition THIRD_DIR :: string where
  "THIRD_DIR = path_join OUT_DIR ''third_person_camera''"

definition MAX_CROSSERS :: nat where
  "MAX_CROSSERS = 2"

definition JAYWALK_TRIGGER_DISTANCE :: real where
  "JAYWALK_TRIGGER_DISTANCE = 12"

definition NO_FRAME_TIMEOUT :: real where
  "NO_FRAME_TIMEOUT = 10"

subsection \<open>Camera images and their conversion (lines 81-86)\<close>

record image =
  img_frame :: int
  img_height :: nat
  img_width :: nat
  raw_data :: "8 word list"

type_synonym surface = "8 word list list list"

definition reshape_hw4 :: "nat \<Rightarrow> nat \<Rightarrow> 'a list \<Rightarrow> pyerror + 'a list list list" where
  \<comment> \<open>\<^verbatim>\<open>arr.reshape((h, w, 4))\<close> of a flat array: ValueError unless it has \<open>h * w * 4\<close> items\<close>
  "reshape_hw4 h w bs =
     (if length bs = h * w * 4
      then Inr (map (\<lambda>i. map (\<lambda>j. map (\<lambda>k. bs ! ((i * w + j) * 4 + k)) [0..<4]) [0..<w]) [0..<h])
      else Inl ValueError)"

definition bgra_to_rgb :: "'a list list list \<Rightarrow> 'a list list list" where
  \<comment> \<open>\<^verbatim>\<open>arr[:, :, :3][:, :, ::-1]\<close>\<close>
  "bgra_to_rgb arr = map (map (\<lambda>px. rev (take 3 px))) arr"

definition swapaxes01 :: "nat \<Rightarrow> nat \<Rightarrow> 'a list list list \<Rightarrow> 'a list list list" where
  \<comment> \<open>\<^verbatim>\<open>arr.swapaxes(0, 1)\<close> of an array of shape \<open>(h, w, _)\<close>\<close>
  "swapaxes01 h w arr = map (\<lambda>j. map (\<lambda>i. arr ! i ! j) [0..<h]) [0..<w]"

definition to_surface_from_image :: "image \<Rightarrow> pyerror + surface" where
  "to_surface_from_image im =
     (case reshape_hw4 (img_height im) (img_width im) (raw_data im) of
        Inl e \<Rightarrow> Inl e
      | Inr arr \<Rightarrow> Inr (swapaxes01 (img_height im) (img_width im) (bgra_to_rgb arr)))"

subsection \<open>Module globals, the save queue and the camera callback (lines 54-109)\<close>

text \<open>
  \<open>save_queue\<close> with \<open>unfinished_tasks\<close> is the \<^verbatim>\<open>queue.Queue\<close>: \<^verbatim>\<open>put\<close> adds a
  task and counts it, \<^verbatim>\<open>task_done\<close> counts one down, \<^verbatim>\<open>join\<close> blocks while the
  count is not zero. \<open>stop_saver\<close> is the saver thread's stop event and \<open>saved\<close> lists
  the files written so far.
\<close>

record globals =
  front_image :: "surface option"
  third_image :: "surface option"
  last_frame_time :: real
  frame_counter :: int
  CAM_SAVE_EVERY_N :: int
  save_queue :: "(string \<times> image) list"
  unfinished_tasks :: nat
  stop_saver :: bool
  saved :: "string list"

fun dec_digits :: "nat \<Rightarrow> string" where
  "dec_digits n =
     (if n < 10 then [''0123456789'' ! n]
      else dec_digits (n div 10) @ [''0123456789'' ! (n mod 10)])"

definition zfill :: "nat \<Rightarrow> string \<Rightarrow> string" where
  "zfill w ds = replicate (w - length ds) (CHR ''0'') @ ds"

definition format_06d :: "int \<Rightarrow> string" where
  \<comment> \<open>the format specification \<^verbatim>\<open>06d\<close>: sign first, then zeros up to six characters\<close>
  "format_06d n =
     (if n < 0 then CHR ''-'' # zfill 5 (dec_digits (nat (- n)))
      else zfill 6 (dec_digits (nat n)))"

definition queue_put :: "string \<times> image \<Rightarrow> globals \<Rightarrow> globals" where
  "queue_put task g =
     g\<lparr>save_queue := save_queue g @ [task], unfinished_tasks := Suc (unfinished_tasks g)\<rparr>"

definition callback :: "string \<Rightarrow> real \<Rightarrow> image \<Rightarrow> globals \<Rightarrow> globals" where
  \<comment> \<open>the callback made for \<open>store_name\<close>, run at wall-clock time \<open>t\<close> on image \<open>im\<close>\<close>
  "callback store_name t im g =
     (let g1 = g\<lparr>last_frame_time := t, frame_counter := frame_counter g + 1\<rparr> in
      case to_surface_from_image im of
        Inl e \<Rightarrow> g1
      | Inr surf \<Rightarrow>
          let g2 = (if store_name = ''front'' then g1\<lparr>front_image := Some surf\<rparr>
                    else g1\<lparr>third_image := Some surf\<rparr>)
          in if 0 < CAM_SAVE_EVERY_N g2 \<and> img_frame im mod CAM_SAVE_EVERY_N g2 = 0
             then let target = (if store_name = ''front'' then FRONT_DIR else THIRD_DIR)
                  in queue_put (path_join target (format_06d (img_frame im) @ ''.png''), im) g2
             else g2)"

definition image_saver_iter :: "bool \<Rightarrow> globals \<Rightarrow> globals" where
  \<comment> \<open>one pass of the saver's loop; \<open>save_ok\<close>: \<^verbatim>\<open>save_to_disk\<close> did not raise.
     \<^verbatim>\<open>task_done\<close> raises ValueError at a count of zero, which the source ignores.\<close>
  "image_saver_iter save_ok g =
     (if stop_saver g then g
      else case save_queue g of
        [] \<Rightarrow> g
      | (path, im) # rest \<Rightarrow>
          g\<lparr>save_queue := rest,
            saved := (if save_ok then saved g @ [path] else saved g),
            unfinished_tasks := unfinished_tasks g - 1\<rparr>)"

definition initial_globals :: "bool \<Rightarrow> real \<Rightarrow> globals" where
  \<comment> \<open>the globals when the loop starts at time \<open>t0\<close>; \<open>no_save\<close> is the flag \<^verbatim>\<open>--no-save\<close>\<close>
  "initial_globals no_save t0 =
     \<lparr>front_image = None, third_image = None, last_frame_time = t0, frame_counter = 0,
      CAM_SAVE_EVERY_N = (if no_save then 0 else 60), save_queue = [], unfinished_tasks = 0,
      stop_saver = False, saved = []\<rparr>"

subsection \<open>The inputs of one pass of the main loop\<close>

type_synonym actor = nat

type_synonym location = "real \<times> real \<times> real"

datatype key = K_ESCAPE | K_OTHER

datatype event = QUIT | KEYDOWN key | OTHER_EVENT

record world_snapshot =
  snap_frame :: int
  elapsed_seconds :: real

record control =
  ctl_steer :: real
  ctl_throttle :: real
  ctl_brake :: real

record telemetry_row =
  row_frame :: int
  row_time_s :: real
  row_speed_kmh :: real
  row_steer :: real
  row_throttle :: real
  row_brake :: real
  row_x :: real
  row_y :: real
  row_z :: real

text \<open>
  What the outside world answers during one pass of the loop body (lines 299-420), in the
  order of the calls. \<open>Inl\<close> is a call that raised.
  \<^item> \<open>events\<close>: \<^verbatim>\<open>pygame.event.get()\<close>;
  \<^item> \<open>snapshot\<close>: \<^verbatim>\<open>world.get_snapshot()\<close>, \<open>None\<close> when it raised or returned None;
  \<^item> \<open>now\<close>: \<^verbatim>\<open>time.time()\<close> at the watchdog comparison;
  \<^item> \<open>ego_transform\<close>, \<open>ego_velocity\<close>, \<open>ego_control\<close>: the three reads of the ego vehicle;
  \<^item> \<open>future\<close>: the waypoints ahead of the ego (lines 337-338), by their locations;
    \<open>Inl\<close> also stands for an exception in lines 340-343, which ends the staging the same way;
  \<^item> \<open>spawn_wp\<close>: the waypoint of lines 349-353, \<open>None\<close> when the lookup raised or found none;
  \<^item> \<open>walker_spawn\<close>: lines 358-359, \<open>Inr None\<close> when \<^verbatim>\<open>try_spawn_actor\<close> returned None;
  \<^item> \<open>controller_spawn\<close>: line 362;
  \<^item> \<open>dest\<close>: the destination computed in lines 369-370;
  \<^item> \<open>distance\<close>: \<^verbatim>\<open>walker.get_location().distance(ego_location)\<close> of a staged walker;
  \<^item> \<open>is_alive\<close>: \<^verbatim>\<open>safe_is_alive\<close> of an actor.
\<close>

record tick_input =
  events :: "event list"
  snapshot :: "world_snapshot option"
  now :: real
  ego_transform :: "pyerror + location"
  ego_velocity :: "pyerror + real \<times> real \<times> real"
  ego_control :: "pyerror + control"
  future :: "pyerror + location list"
  spawn_wp :: "location option"
  walker_spawn :: "pyerror + actor option"
  controller_spawn :: "pyerror + actor"
  dest :: "pyerror + location"
  distance :: "actor \<Rightarrow> pyerror + real"
  is_alive :: "actor \<Rightarrow> bool"

subsection \<open>The state of the main loop\<close>

datatype world_call =
    SpawnWalker actor
  | SpawnController actor actor
  | Destroy actor
  | ControllerStart actor

text \<open>
  The locals of \<^verbatim>\<open>main\<close> that the loop reads and writes, the module globals, and
  \<open>world_log\<close>: the calls made so far that create, destroy or start an actor, in order.
  \<open>ego_location = None\<close> is the local variable before its first assignment.
\<close>

record loop_state =
  running :: bool
  telemetry :: "telemetry_row deque"
  ego_location :: "location option"
  walkers :: "actor list"
  walker_controllers :: "actor list"
  staged_walkers :: "(actor \<times> actor \<times> location \<times> real) list"
  spawn_attempts :: nat
  world_log :: "world_call list"
  glob :: globals

definition initial_state :: "bool \<Rightarrow> real \<Rightarrow> loop_state" where
  "initial_state no_save t0 =
     \<lparr>running = True, telemetry = deque_new MAX_TELEMETRY_ROWS, ego_location = None,
      walkers = [], walker_controllers = [], staged_walkers = [], spawn_attempts = 0,
      world_log = [], glob = initial_globals no_save t0\<rparr>"

subsection \<open>The loop body (lines 298-420)\<close>

fun is_quit :: "event \<Rightarrow> bool" where
  "is_quit QUIT = True"
| "is_quit (KEYDOWN k) = (k = K_ESCAPE)"
| "is_quit OTHER_EVENT = False"

definition process_events :: "event list \<Rightarrow> loop_state \<Rightarrow> loop_state" where
  "process_events evs s = (if list_ex is_quit evs then s\<lparr>running := False\<rparr> else s)"

definition watchdog_stalled :: "real \<Rightarrow> real \<Rightarrow> bool" where
  \<comment> \<open>line 316, at time \<open>t\<close> with the last frame seen at \<open>seen\<close>\<close>
  "watchdog_stalled t seen = (NO_FRAME_TIMEOUT < t - seen)"

definition record_telemetry :: "world_snapshot \<Rightarrow> tick_input \<Rightarrow> loop_state \<Rightarrow> loop_state" where
  \<comment> \<open>lines 321-332; an exception at any line leaves what the earlier lines assigned\<close>
  "record_telemetry snap i s =
     (case ego_transform i of
        Inl e \<Rightarrow> s
      | Inr loc \<Rightarrow>
          let s1 = s\<lparr>ego_location := Some loc\<rparr> in
          (case ego_velocity i of
             Inl e \<Rightarrow> s1
           | Inr (vx, vy, vz) \<Rightarrow>
               (case ego_control i of
                  Inl e \<Rightarrow> s1
                | Inr ctrl \<Rightarrow>
                    let speed_kmh = 3.6 * sqrt (vx\<^sup>2 + vy\<^sup>2 + vz\<^sup>2) in
                    (case deque_setattr (telemetry s1) ''append'' of
                       Inl e \<Rightarrow> s1
                     | Inr tel \<Rightarrow>
                         s1\<lparr>telemetry :=
                              deque_append
                                \<lparr>row_frame = snap_frame snap, row_time_s = elapsed_seconds snap,
                                 row_speed_kmh = speed_kmh, row_steer = ctl_steer ctrl,
                                 row_throttle = ctl_throttle ctrl, row_brake = ctl_brake ctrl,
                                 row_x = fst loc, row_y = fst (snd loc), row_z = snd (snd loc)\<rparr>
                                tel\<rparr>))))"

definition staging_due :: "bool \<Rightarrow> world_snapshot \<Rightarrow> loop_state \<Rightarrow> bool" where
  \<comment> \<open>the condition of line 335; \<open>no_walkers\<close> is the flag \<^verbatim>\<open>--no-walkers\<close>\<close>
  "staging_due no_walkers snap s =
     (\<not> no_walkers \<and> 40 < snap_frame snap \<and> snap_frame snap mod 200 = 0
      \<and> length (walkers s) + length (staged_walkers s) < MAX_CROSSERS)"

definition stage_walker :: "tick_input \<Rightarrow> loop_state \<Rightarrow> bool \<times> loop_state" where
  \<comment> \<open>lines 336-374. The first component is True when the \<^verbatim>\<open>continue\<close> of line 368
     was taken. An exception of \<^verbatim>\<open>walker.destroy()\<close> is ignored by the source.\<close>
  "stage_walker i s =
     (case (case ego_location s of None \<Rightarrow> Inl UnboundLocalError | Some l \<Rightarrow> future i) of
        Inl e \<Rightarrow> (False, s)
      | Inr [] \<Rightarrow> (False, s)
      | Inr (future_wp # _) \<Rightarrow>
          (case spawn_wp i of
             None \<Rightarrow> (False, s)
           | Some st \<Rightarrow>
               (case walker_spawn i of
                  Inl e \<Rightarrow> (False, s)
                | Inr None \<Rightarrow> (False, s)
                | Inr (Some walker) \<Rightarrow>
                    let s1 = s\<lparr>world_log := world_log s @ [SpawnWalker walker]\<rparr> in
                    (case controller_spawn i of
                       Inl e \<Rightarrow> (True, s1\<lparr>world_log := world_log s1 @ [Destroy walker]\<rparr>)
                     | Inr ctrl \<Rightarrow>
                         let s2 = s1\<lparr>world_log := world_log s1 @ [SpawnController ctrl walker]\<rparr> in
                         (case dest i of
                            Inl e \<Rightarrow> (False, s2)
                          | Inr d \<Rightarrow>
                              (False,
                               s2\<lparr>staged_walkers :=
                                     staged_walkers s2 @ [(walker, ctrl, d, JAYWALK_TRIGGER_DISTANCE)],
                                   spawn_attempts := Suc (spawn_attempts s2)\<rparr>))))))"

definition trigger_one ::
  "tick_input \<Rightarrow> loop_state \<times> (actor \<times> actor \<times> location \<times> real) list \<Rightarrow>
   actor \<times> actor \<times> location \<times> real \<Rightarrow> loop_state \<times> (actor \<times> actor \<times> location \<times> real) list" where
  \<comment> \<open>one pass of the \<^verbatim>\<open>for\<close> of lines 378-397, on the state and the list \<open>remaining\<close>\<close>
  "trigger_one i acc sw =
     (case acc of (s, remaining) \<Rightarrow>
      case sw of (walker, ctrl, destination, trig) \<Rightarrow>
        (case (case ego_location s of None \<Rightarrow> Inl UnboundLocalError
               | Some l \<Rightarrow> distance i walker) of
           Inr gap \<Rightarrow>
             if gap < trig
             then (s\<lparr>walkers := walkers s @ [walker],
                     walker_controllers := walker_controllers s @ [ctrl],
                     world_log := world_log s @ [ControllerStart ctrl]\<rparr>, remaining)
             else (s, remaining @ [sw])
         | Inl e \<Rightarrow>
             (if is_alive i walker then s\<lparr>world_log := world_log s @ [Destroy walker]\<rparr> else s,
              remaining)))"

definition trigger_staged :: "tick_input \<Rightarrow> loop_state \<Rightarrow> loop_state" where
  \<comment> \<open>lines 377-398\<close>
  "trigger_staged i s =
     (case foldl (trigger_one i) (s, []) (staged_walkers s) of
        (s', remaining) \<Rightarrow> s'\<lparr>staged_walkers := remaining\<rparr>)"

datatype tick_result = Next | Break

definition tick :: "bool \<Rightarrow> tick_input \<Rightarrow> loop_state \<Rightarrow> tick_result \<times> loop_state" where
  "tick no_walkers i s0 =
     (let s = process_events (events i) s0 in
      case snapshot i of
        None \<Rightarrow> (Next, s)
      | Some snap \<Rightarrow>
          if watchdog_stalled (now i) (last_frame_time (glob s)) then (Break, s)
          else
            let s1 = record_telemetry snap i s in
            if staging_due no_walkers snap s1
            then (case stage_walker i s1 of
                    (True, s2) \<Rightarrow> (Next, s2)
                  | (False, s2) \<Rightarrow> (Next, trigger_staged i s2))
            else (Next, trigger_staged i s1))"

subsection \<open>The threads together\<close>

text \<open>
  A run is a sequence of events of the three threads: a camera callback (stream name,
  wall-clock time, image), one pass of the saver's loop, or one pass of the main loop.
  \<open>run_loop\<close> is the \<^verbatim>\<open>while running\<close> of line 298 over such a sequence. It returns
  why the loop ended (\<open>None\<close>: it is still running when the sequence ends), the state, and
  the events left over, which fall into the shutdown.
\<close>

datatype sched_event =
    CameraFrame string real image
  | SaverIter bool
  | LoopTick tick_input

datatype exit_reason = UserQuit | WatchdogStall

fun async_step :: "sched_event \<Rightarrow> globals \<Rightarrow> globals" where
  "async_step (CameraFrame store_name t im) g = callback store_name t im g"
| "async_step (SaverIter save_ok) g = image_saver_iter save_ok g"
| "async_step (LoopTick i) g = g"

fun run_loop ::
  "bool \<Rightarrow> sched_event list \<Rightarrow> loop_state \<Rightarrow> exit_reason option \<times> loop_state \<times> sched_event list" where
  "run_loop no_walkers [] s = (if running s then None else Some UserQuit, s, [])"
| "run_loop no_walkers (e # es) s =
     (if \<not> running s then (Some UserQuit, s, e # es)
      else case e of
        LoopTick i \<Rightarrow>
          (case tick no_walkers i s of
             (Break, s') \<Rightarrow> (Some WatchdogStall, s', es)
           | (Next, s') \<Rightarrow> run_loop no_walkers es s')
      | _ \<Rightarrow> run_loop no_walkers es (s\<lparr>glob := async_step e (glob s)\<rparr>))"

subsection \<open>Shutdown (lines 428-484)\<close>

record settings =
  synchronous_mode :: bool
  fixed_delta_seconds :: real

text \<open>
  What \<^verbatim>\<open>main\<close> set up before the loop and the cleanup uses: the sensors and vehicles
  it spawned and the settings it saved (\<open>None\<close> when reading them failed, line 185).
\<close>

record resources =
  sensors :: "actor list"
  vehicles :: "actor list"
  original_settings :: "settings option"

text \<open>
  The calls of the cleanup, in program order. \<open>SensorStop\<close> is the simulator's call
  that ends a sensor's \<^verbatim>\<open>listen\<close>; \<open>SaverThreadJoin\<close> carries its timeout in seconds.
\<close>

datatype cleanup_action =
    WriteTelemetry "telemetry_row list"
  | QueueJoin
  | StopSaverSet
  | SaverThreadJoin real
  | ApplyBatchDestroy "actor list"
  | ActorDestroy actor
  | ApplySettings settings
  | PygameQuit
  | SensorStop actor

definition cleanup :: "resources \<Rightarrow> (actor \<Rightarrow> bool) \<Rightarrow> bool \<Rightarrow> loop_state \<Rightarrow> cleanup_action list" where
  \<comment> \<open>\<open>alive\<close>: \<^verbatim>\<open>safe_is_alive\<close>; \<open>batch_raises\<close>: \<^verbatim>\<open>apply_batch_sync\<close> raised\<close>
  "cleanup su alive batch_raises s =
     (let tracked = sensors su @ walker_controllers s @ walkers s @ vehicles su;
          all_ids = filter alive tracked
      in (if items (telemetry s) = [] then [] else [WriteTelemetry (items (telemetry s))])
         @ [QueueJoin, StopSaverSet, SaverThreadJoin 1]
         @ (if all_ids = [] then []
            else if batch_raises then ApplyBatchDestroy all_ids # map ActorDestroy (filter alive tracked)
            else [ApplyBatchDestroy all_ids])
         @ (case original_settings su of None \<Rightarrow> [] | Some st \<Rightarrow> [ApplySettings st])
         @ [PygameQuit])"


text \<open>
  \<^verbatim>\<open>save_queue.join()\<close> (line 444) under the events of the other threads: it returns
  once \<open>unfinished_tasks\<close> is zero, with the globals and the events left over; \<open>None\<close>
  when it is still blocked at the end of the sequence.
\<close>

fun queue_join :: "sched_event list \<Rightarrow> globals \<Rightarrow> (globals \<times> sched_event list) option" where
  "queue_join [] g = (if unfinished_tasks g = 0 then Some (g, []) else None)"
| "queue_join (e # es) g =
     (if unfinished_tasks g = 0 then Some (g, e # es) else queue_join es (async_step e g))"

subsection \<open>The cleanup order of the design document\<close>







subsection \<open>Properties of the events of a run\<close>

fun poll_failed :: "sched_event \<Rightarrow> bool" where
  \<comment> \<open>the event is not a pass of the main loop that obtained a snapshot\<close>
  "poll_failed (LoopTick i) = (snapshot i = None)"
| "poll_failed _ = True"

fun quit_pressed :: "sched_event \<Rightarrow> bool" where
  \<comment> \<open>a pass of the main loop that reads a quit event\<close>
  "quit_pressed (LoopTick i) = list_ex is_quit (events i)"
| "quit_pressed _ = False"

definition crossers :: "loop_state \<Rightarrow> nat" where
  \<comment> \<open>the walkers that are staged or triggered: the count that line 335 compares\<close>
  "crossers s = length (walkers s) + length (staged_walkers s)"

fun is_spawn_walker :: "world_call \<Rightarrow> bool" where
  "is_spawn_walker (SpawnWalker w) = True"
| "is_spawn_walker _ = False"


fun is_saver_pass :: "sched_event \<Rightarrow> bool" where
  "is_saver_pass (SaverIter save_ok) = True"
| "is_saver_pass _ = False"

subsection \<open>Concrete inputs\<close>

definition pixel_image :: "int \<Rightarrow> image" where
  \<comment> \<open>a camera image of one pixel with frame number \<open>n\<close>\<close>
  "pixel_image n = \<lparr>img_frame = n, img_height = 1, img_width = 1, raw_data = [10, 20, 30, 255]\<rparr>"

definition plain_tick :: "real \<Rightarrow> int \<Rightarrow> tick_input" where
  \<comment> \<open>a pass at time \<open>t\<close> with snapshot frame \<open>n\<close> in which every call succeeds\<close>
  "plain_tick t n =
     \<lparr>events = [], snapshot = Some \<lparr>snap_frame = n, elapsed_seconds = 0\<rparr>, now = t,
      ego_transform = Inr (1, 2, 0), ego_velocity = Inr (3, 4, 0),
      ego_control = Inr \<lparr>ctl_steer = 0, ctl_throttle = 1, ctl_brake = 0\<rparr>,
      future = Inr [(10, 2, 0)], spawn_wp = Some (10, 5, 1), walker_spawn = Inr (Some 7),
      controller_spawn = Inr 8, dest = Inr (10, - 2, 0),
      distance = (\<lambda>w. Inr 20), is_alive = (\<lambda>a. True)\<rparr>"



definition one_task_queued :: globals where
  \<comment> \<open>the globals after the front camera delivered frame 0, which is sampled\<close>
  "one_task_queued = callback ''front'' 0 (pixel_image 0) (initial_globals False 0)"

subsection \<open>Facts about the ring\<close>

lemma maxlen_deque_append: "maxlen (deque_append v d) = maxlen d"
  by (simp add: deque_append_def)

lemma length_deque_append:
  "length (items d) \<le> maxlen d \<Longrightarrow> length (items (deque_append v d)) \<le> maxlen d"
  by (auto simp: deque_append_def)

lemma maxlen_appends: "maxlen (appends vs d) = maxlen d"
  unfolding appends_def by (induction vs arbitrary: d) (simp_all add: maxlen_deque_append)

lemma appends_snoc: "appends (vs @ [v]) d = deque_append v (appends vs d)"
  by (simp add: appends_def)

lemma tl_drop_snoc:
  "n < length vs \<Longrightarrow> tl (drop n vs) @ [v] = drop (Suc n) (vs @ [v])"
  by (simp add: drop_Suc tl_drop)

lemma items_appends_new: "items (appends vs (deque_new C)) = drop (length vs - C) vs"
proof (induction vs rule: rev_induct)
  case Nil
  show ?case by (simp add: appends_def deque_new_def)
next
  case (snoc v vs)
  let ?d = "appends vs (deque_new C)"
  have cap: "maxlen ?d = C"
    by (simp add: maxlen_appends deque_new_def)
  show ?case
  proof (cases "C = 0")
    case True
    with snoc cap show ?thesis
      by (simp add: appends_snoc deque_append_def)
  next
    case False
    show ?thesis
    proof (cases "length vs < C")
      case True
      with snoc cap False show ?thesis
        by (simp add: appends_snoc deque_append_def)
    next
      case full: False
      then have n: "length vs - C < length vs"
        using \<open>C \<noteq> 0\<close> by simp
      have "items (deque_append v ?d) = tl (drop (length vs - C) vs) @ [v]"
        using snoc cap full \<open>C \<noteq> 0\<close> by (simp add: deque_append_def)
      also have "\<dots> = drop (Suc (length vs - C)) (vs @ [v])"
        using n by (rule tl_drop_snoc)
      also have "Suc (length vs - C) = length (vs @ [v]) - C"
        using full by simp
      finally show ?thesis
        by (simp add: appends_snoc)
    qed
  qed
qed

text \<open>
  C3. For every capacity \<open>C\<close> and every sequence of appends to a new ring of that
  capacity: the ring holds at most \<open>C\<close> records; it holds exactly the most recent
  \<open>C\<close> records (all of them when fewer were appended), in the order of the appends;
  and after \<open>C + 1\<close> appends the record appended first has been evicted, only the
  \<open>C\<close> later ones remain. The telemetry ring of the main loop is such a ring, of
  capacity MAX_TELEMETRY_ROWS.
\<close>

theorem telemetry_ring_bounded:
  "length (items (appends vs (deque_new C))) \<le> C
   \<and> items (appends vs (deque_new C)) = drop (length vs - C) vs
   \<and> (length vs = Suc C \<longrightarrow>
        items (appends vs (deque_new C)) = tl vs
        \<and> (hd vs \<notin> set (tl vs) \<longrightarrow> hd vs \<notin> set (items (appends vs (deque_new C)))))
   \<and> telemetry (initial_state no_save t0) = deque_new MAX_TELEMETRY_ROWS"
proof -
  have eq: "items (appends vs (deque_new C)) = drop (length vs - C) vs"
    by (rule items_appends_new)
  have "length vs = Suc C \<Longrightarrow> drop (length vs - C) vs = tl vs"
    by (simp add: drop_Suc)
  moreover have "telemetry (initial_state no_save t0) = deque_new MAX_TELEMETRY_ROWS"
    by (simp add: initial_state_def)
  ultimately show ?thesis
    using eq by auto
qed

theorem telemetry_ring_bounded_witness:
  "length (items (appends [1, 2, 3, 4 :: nat] (deque_new 3))) \<le> 3
   \<and> items (appends [1, 2, 3, 4 :: nat] (deque_new 3)) = [2, 3, 4]
   \<and> (1::nat) \<notin> set (items (appends [1, 2, 3, 4 :: nat] (deque_new 3)))"
  using telemetry_ring_bounded [of "[1, 2, 3, 4 :: nat]" 3] by simp

subsection \<open>Reading the concrete inputs\<close>

declare dec_digits.simps [simp del]

lemma pixel_image_simps:
  "img_frame (pixel_image n) = n"
  "length (raw_data (pixel_image n)) = img_height (pixel_image n) * img_width (pixel_image n) * 4"
  by (simp_all add: pixel_image_def)

lemma initial_globals_simps:
  "CAM_SAVE_EVERY_N (initial_globals no_save t0) = (if no_save then 0 else 60)"
  "save_queue (initial_globals no_save t0) = []"
  "unfinished_tasks (initial_globals no_save t0) = 0"
  "last_frame_time (initial_globals no_save t0) = t0"
  "stop_saver (initial_globals no_save t0) = False"
  by (simp_all add: initial_globals_def)

lemma suffix_of_itself: "\<exists>k. xs = drop k xs"
  by (rule exI [of _ 0]) simp

subsection \<open>What each step of the loop body leaves alone\<close>

lemma process_events_fields:
  "telemetry (process_events evs s) = telemetry s"
  "ego_location (process_events evs s) = ego_location s"
  "walkers (process_events evs s) = walkers s"
  "walker_controllers (process_events evs s) = walker_controllers s"
  "staged_walkers (process_events evs s) = staged_walkers s"
  "spawn_attempts (process_events evs s) = spawn_attempts s"
  "world_log (process_events evs s) = world_log s"
  "glob (process_events evs s) = glob s"
  "running (process_events evs s) = (running s \<and> \<not> list_ex is_quit evs)"
  by (simp_all add: process_events_def)

lemma record_telemetry_eq:
  "record_telemetry snap i s =
     (case ego_transform i of Inl e \<Rightarrow> s | Inr loc \<Rightarrow> s\<lparr>ego_location := Some loc\<rparr>)"
  by (simp add: record_telemetry_def deque_setattr_def Let_def split: sum.splits prod.splits)

lemma record_telemetry_fields:
  "telemetry (record_telemetry snap i s) = telemetry s"
  "walkers (record_telemetry snap i s) = walkers s"
  "walker_controllers (record_telemetry snap i s) = walker_controllers s"
  "staged_walkers (record_telemetry snap i s) = staged_walkers s"
  "spawn_attempts (record_telemetry snap i s) = spawn_attempts s"
  "world_log (record_telemetry snap i s) = world_log s"
  "glob (record_telemetry snap i s) = glob s"
  "running (record_telemetry snap i s) = running s"
  by (simp_all add: record_telemetry_eq split: sum.splits)

lemma stage_walker_fields:
  "telemetry (snd (stage_walker i s)) = telemetry s"
  "walkers (snd (stage_walker i s)) = walkers s"
  "walker_controllers (snd (stage_walker i s)) = walker_controllers s"
  "glob (snd (stage_walker i s)) = glob s"
  "running (snd (stage_walker i s)) = running s"
  "ego_location (snd (stage_walker i s)) = ego_location s"
  by (simp_all add: stage_walker_def Let_def split: sum.splits option.splits list.splits)

lemma trigger_one_fields:
  "telemetry (fst (trigger_one i (s, r) sw)) = telemetry s"
  "glob (fst (trigger_one i (s, r) sw)) = glob s"
  "running (fst (trigger_one i (s, r) sw)) = running s"
  "ego_location (fst (trigger_one i (s, r) sw)) = ego_location s"
  "spawn_attempts (fst (trigger_one i (s, r) sw)) = spawn_attempts s"
  by (simp_all add: trigger_one_def split: prod.splits sum.splits option.splits)

lemma trigger_fold_fields:
  "telemetry (fst (foldl (trigger_one i) (s, r) sws)) = telemetry s
   \<and> glob (fst (foldl (trigger_one i) (s, r) sws)) = glob s
   \<and> running (fst (foldl (trigger_one i) (s, r) sws)) = running s
   \<and> ego_location (fst (foldl (trigger_one i) (s, r) sws)) = ego_location s
   \<and> spawn_attempts (fst (foldl (trigger_one i) (s, r) sws)) = spawn_attempts s"
proof (induction sws arbitrary: s r)
  case Nil
  show ?case by simp
next
  case (Cons sw sws)
  obtain s' r' where step: "trigger_one i (s, r) sw = (s', r')"
    by (cases "trigger_one i (s, r) sw")
  have "telemetry s' = telemetry s" "glob s' = glob s" "running s' = running s"
       "ego_location s' = ego_location s" "spawn_attempts s' = spawn_attempts s"
    using trigger_one_fields [of i s r sw] by (simp_all add: step)
  with Cons.IH [of s' r'] show ?case
    by (simp add: step)
qed

lemma trigger_staged_eq:
  "trigger_staged i s =
     (fst (foldl (trigger_one i) (s, []) (staged_walkers s)))
       \<lparr>staged_walkers := snd (foldl (trigger_one i) (s, []) (staged_walkers s))\<rparr>"
  by (simp add: trigger_staged_def split: prod.splits)

lemma trigger_staged_fields:
  "telemetry (trigger_staged i s) = telemetry s"
  "glob (trigger_staged i s) = glob s"
  "running (trigger_staged i s) = running s"
  "ego_location (trigger_staged i s) = ego_location s"
  "spawn_attempts (trigger_staged i s) = spawn_attempts s"
  by (simp_all add: trigger_staged_eq trigger_fold_fields)

lemma tick_no_snapshot:
  "snapshot i = None \<Longrightarrow> tick no_walkers i s = (Next, process_events (events i) s)"
  by (simp add: tick_def)


lemma tick_alive:
  "snapshot i = Some snap \<Longrightarrow> \<not> watchdog_stalled (now i) (last_frame_time (glob s)) \<Longrightarrow>
   fst (tick no_walkers i s) = Next"
  by (simp add: tick_def process_events_fields Let_def split: prod.splits bool.splits)

lemma stage_walker_fieldsD:
  "stage_walker i s = (b, s2) \<Longrightarrow>
   telemetry s2 = telemetry s \<and> walkers s2 = walkers s
   \<and> walker_controllers s2 = walker_controllers s \<and> glob s2 = glob s
   \<and> running s2 = running s \<and> ego_location s2 = ego_location s"
  using stage_walker_fields [of i s] by simp

lemma snd_tick:
  "snd (tick no_walkers i s) =
     (let s0 = process_events (events i) s in
      case snapshot i of
        None \<Rightarrow> s0
      | Some snap \<Rightarrow>
          if watchdog_stalled (now i) (last_frame_time (glob s)) then s0
          else let s1 = record_telemetry snap i s0 in
               if staging_due no_walkers snap s1
               then (if fst (stage_walker i s1) then snd (stage_walker i s1)
                     else trigger_staged i (snd (stage_walker i s1)))
               else trigger_staged i s1)"
  by (simp add: tick_def Let_def process_events_fields split: option.splits prod.splits bool.splits)

lemma tick_fields:
  "telemetry (snd (tick no_walkers i s)) = telemetry s"
  "glob (snd (tick no_walkers i s)) = glob s"
  by (simp_all add: snd_tick Let_def process_events_fields record_telemetry_fields
      stage_walker_fields trigger_staged_fields split: option.splits)

subsection \<open>Runs\<close>

lemma run_loop_telemetry:
  "telemetry (fst (snd (run_loop no_walkers evs s))) = telemetry s"
proof (induction evs arbitrary: s)
  case Nil
  show ?case by simp
next
  case (Cons e evs)
  show ?case
  proof (cases e)
    case (LoopTick i)
    obtain r s' where t: "tick no_walkers i s = (r, s')"
      by (cases "tick no_walkers i s")
    then have "telemetry s' = telemetry s"
      using tick_fields(1) [of no_walkers i s] by simp
    with Cons.IH [of s'] show ?thesis
      by (cases r) (simp_all add: LoopTick t)
  next
    case (CameraFrame store_name t im)
    with Cons.IH [of "s\<lparr>glob := async_step e (glob s)\<rparr>"] show ?thesis by simp
  next
    case (SaverIter ok)
    with Cons.IH [of "s\<lparr>glob := async_step e (glob s)\<rparr>"] show ?thesis by simp
  qed
qed

lemma initial_state_simps:
  "running (initial_state no_save t0)"
  "items (telemetry (initial_state no_save t0)) = []"
  "walkers (initial_state no_save t0) = []"
  "staged_walkers (initial_state no_save t0) = []"
  "ego_location (initial_state no_save t0) = None"
  "glob (initial_state no_save t0) = initial_globals no_save t0"
  by (simp_all add: initial_state_def deque_new_def)

lemma plain_tick_simps:
  "events (plain_tick t n) = []"
  "snapshot (plain_tick t n) = Some \<lparr>snap_frame = n, elapsed_seconds = 0\<rparr>"
  "now (plain_tick t n) = t"
  "ego_transform (plain_tick t n) = Inr (1, 2, 0)"
  "ego_velocity (plain_tick t n) = Inr (3, 4, 0)"
  "ego_control (plain_tick t n) = Inr \<lparr>ctl_steer = 0, ctl_throttle = 1, ctl_brake = 0\<rparr>"
  by (simp_all add: plain_tick_def)

text \<open>
  C1 (the code departs from it). The claim: on every pass with a snapshot and a passing
  watchdog check, one telemetry row is appended to the ring. The code: line 327 assigns to
  \<^verbatim>\<open>telemetry.append\<close>, which raises AttributeError on a deque; the handler of
  lines 331-332 swallows it and line 328 is never reached. So no pass of the loop changes
  the ring, the ring is empty after every run, and this holds in particular for a pass
  that has a snapshot, passes the watchdog check and reads the ego vehicle without error.
\<close>

theorem telemetry_never_appended:
  "telemetry (snd (tick no_walkers i s)) = telemetry s
   \<and> items (telemetry (fst (snd (run_loop no_walkers evs (initial_state no_save t0))))) = []
   \<and> snapshot (plain_tick 1 1) \<noteq> None
   \<and> ego_transform (plain_tick 1 1) = Inr (1, 2, 0)
   \<and> fst (tick False (plain_tick 1 1) (initial_state False 0)) = Next
   \<and> items (telemetry (snd (tick False (plain_tick 1 1) (initial_state False 0)))) = []"
proof -
  have alive: "\<not> watchdog_stalled (now (plain_tick 1 1)) (last_frame_time (glob (initial_state False 0)))"
    by (simp add: watchdog_stalled_def NO_FRAME_TIMEOUT_def plain_tick_simps initial_state_simps
        initial_globals_simps)
  have "fst (tick False (plain_tick 1 1) (initial_state False 0)) = Next"
    using alive by (intro tick_alive) (simp_all add: plain_tick_simps)
  then show ?thesis
    by (simp add: tick_fields run_loop_telemetry initial_state_simps plain_tick_simps)
qed



lemma run_loop_polls_fail:
  "list_all poll_failed evs \<Longrightarrow>
   fst (run_loop no_walkers evs s) =
     (if \<not> running s \<or> list_ex quit_pressed evs then Some UserQuit else None)"
proof (induction evs arbitrary: s)
  case Nil
  show ?case by simp
next
  case (Cons e evs)
  then have rest: "list_all poll_failed evs" and here: "poll_failed e"
    by simp_all
  show ?case
  proof (cases "running s")
    case False
    then show ?thesis by simp
  next
    case True
    show ?thesis
    proof (cases e)
      case (LoopTick i)
      with here have none: "snapshot i = None" by simp
      have "fst (run_loop no_walkers (e # evs) s) =
              fst (run_loop no_walkers evs (process_events (events i) s))"
        using True by (simp add: LoopTick tick_no_snapshot [OF none])
      also have "\<dots> = (if \<not> running (process_events (events i) s) \<or> list_ex quit_pressed evs
                         then Some UserQuit else None)"
        using rest by (rule Cons.IH)
      finally show ?thesis
        using True by (simp add: LoopTick process_events_fields)
    next
      case (CameraFrame store_name t im)
      with True Cons.IH [OF rest, of "s\<lparr>glob := async_step e (glob s)\<rparr>"] show ?thesis
        by simp
    next
      case (SaverIter ok)
      with True Cons.IH [OF rest, of "s\<lparr>glob := async_step e (glob s)\<rparr>"] show ?thesis
        by simp
    qed
  qed
qed

text \<open>
  C9. Over any run in which every pass of the main loop fails to obtain a snapshot,
  whatever the clock reads and however long ago the last camera frame arrived, the loop
  never ends by the watchdog: it has ended exactly when a pass read a quit event (or
  \<open>running\<close> was false from the start), and is still running otherwise.
\<close>

theorem failed_polls_bypass_watchdog:
  "list_all poll_failed evs \<longrightarrow>
     fst (run_loop no_walkers evs s) \<noteq> Some WatchdogStall
     \<and> (fst (run_loop no_walkers evs s) = Some UserQuit) = (\<not> running s \<or> list_ex quit_pressed evs)
     \<and> (running s \<and> \<not> list_ex quit_pressed evs \<longrightarrow> fst (run_loop no_walkers evs s) = None)"
  by (simp add: run_loop_polls_fail)

theorem failed_polls_bypass_watchdog_witness:
  "watchdog_stalled 1000 0
   \<and> fst (run_loop False
        [LoopTick ((plain_tick 1000 1)\<lparr>snapshot := None\<rparr>),
         LoopTick ((plain_tick 2000 2)\<lparr>snapshot := None\<rparr>)] (initial_state False 0)) = None
   \<and> fst (run_loop False
        [LoopTick ((plain_tick 1000 1)\<lparr>snapshot := None\<rparr>),
         LoopTick ((plain_tick 2000 2)\<lparr>snapshot := None, events := [KEYDOWN K_ESCAPE]\<rparr>)]
        (initial_state False 0)) = Some UserQuit"
  using failed_polls_bypass_watchdog [of
          "[LoopTick ((plain_tick 1000 1)\<lparr>snapshot := None\<rparr>),
            LoopTick ((plain_tick 2000 2)\<lparr>snapshot := None\<rparr>)]" False "initial_state False 0"]
        failed_polls_bypass_watchdog [of
          "[LoopTick ((plain_tick 1000 1)\<lparr>snapshot := None\<rparr>),
            LoopTick ((plain_tick 2000 2)\<lparr>snapshot := None, events := [KEYDOWN K_ESCAPE]\<rparr>)]"
          False "initial_state False 0"]
  by (simp add: plain_tick_simps initial_state_simps watchdog_stalled_def NO_FRAME_TIMEOUT_def)

subsection \<open>The camera callback\<close>

lemma decodes_when_well_formed:
  "length (raw_data im) = img_height im * img_width im * 4 \<Longrightarrow>
   \<exists>surf. to_surface_from_image im = Inr surf"
  by (simp add: to_surface_from_image_def reshape_hw4_def)

lemma save_queue_callback_disabled:
  "CAM_SAVE_EVERY_N g \<le> 0 \<Longrightarrow> save_queue (callback store_name t im g) = save_queue g"
  by (simp add: callback_def Let_def split: sum.splits)

lemma CAM_SAVE_EVERY_N_callback:
  "CAM_SAVE_EVERY_N (callback store_name t im g) = CAM_SAVE_EVERY_N g"
  by (simp add: callback_def Let_def queue_put_def split: sum.splits)

lemma save_queue_callback_decoded:
  "to_surface_from_image im = Inr surf \<Longrightarrow>
   save_queue (callback store_name t im g) =
     save_queue g @
       (if 0 < CAM_SAVE_EVERY_N g \<and> img_frame im mod CAM_SAVE_EVERY_N g = 0
        then [(path_join (if store_name = ''front'' then FRONT_DIR else THIRD_DIR)
                 (format_06d (img_frame im) @ ''.png''), im)]
        else [])"
  by (simp add: callback_def Let_def queue_put_def)

lemma saver_keeps_sampling:
  "CAM_SAVE_EVERY_N (image_saver_iter save_ok g) = CAM_SAVE_EVERY_N g"
  by (simp add: image_saver_iter_def split: list.splits prod.splits)

lemma saver_takes_from_front:
  "\<exists>k. save_queue (image_saver_iter save_ok g) = drop k (save_queue g)"
proof (cases "stop_saver g \<or> save_queue g = []")
  case True
  then have "save_queue (image_saver_iter save_ok g) = drop 0 (save_queue g)"
    by (auto simp: image_saver_iter_def)
  then show ?thesis ..
next
  case False
  then have "save_queue (image_saver_iter save_ok g) = drop 1 (save_queue g)"
    by (auto simp: image_saver_iter_def drop_Suc split: list.splits)
  then show ?thesis ..
qed

lemma async_step_disabled:
  "CAM_SAVE_EVERY_N g = 0 \<Longrightarrow>
   CAM_SAVE_EVERY_N (async_step e g) = 0 \<and> (\<exists>k. save_queue (async_step e g) = drop k (save_queue g))"
proof (cases e)
  case (CameraFrame store_name t im)
  assume "CAM_SAVE_EVERY_N g = 0"
  then have "save_queue (callback store_name t im g) = drop 0 (save_queue g)"
    by (simp add: save_queue_callback_disabled)
  then have "\<exists>k. save_queue (callback store_name t im g) = drop k (save_queue g)" ..
  with \<open>CAM_SAVE_EVERY_N g = 0\<close> show ?thesis
    by (simp add: CameraFrame CAM_SAVE_EVERY_N_callback)
next
  case (SaverIter save_ok)
  assume "CAM_SAVE_EVERY_N g = 0"
  with saver_takes_from_front [of save_ok g] show ?thesis
    by (simp add: SaverIter saver_keeps_sampling)
next
  case (LoopTick i)
  assume "CAM_SAVE_EVERY_N g = 0"
  then show ?thesis
    by (simp add: LoopTick suffix_of_itself)
qed

lemma run_loop_disabled:
  "CAM_SAVE_EVERY_N (glob s) = 0 \<Longrightarrow>
   \<exists>k. save_queue (glob (fst (snd (run_loop no_walkers evs s)))) = drop k (save_queue (glob s))"
proof (induction evs arbitrary: s)
  case Nil
  show ?case by (simp add: suffix_of_itself)
next
  case (Cons e evs)
  show ?case
  proof (cases "running s")
    case False
    then show ?thesis by (simp add: suffix_of_itself)
  next
    case True
    show ?thesis
    proof (cases e)
      case (LoopTick i)
      obtain r s' where t: "tick no_walkers i s = (r, s')"
        by (cases "tick no_walkers i s")
      then have same: "glob s' = glob s"
        using tick_fields(2) [of no_walkers i s] by simp
      show ?thesis
      proof (cases r)
        case Break
        with True show ?thesis
          by (simp add: LoopTick t same suffix_of_itself)
      next
        case Next
        from Cons.IH [of s'] Cons.prems same True Next show ?thesis
          by (simp add: LoopTick t)
      qed
    next
      case (CameraFrame store_name t im)
      let ?s1 = "s\<lparr>glob := async_step e (glob s)\<rparr>"
      from async_step_disabled [OF Cons.prems, of e] obtain k where
        off: "CAM_SAVE_EVERY_N (async_step e (glob s)) = 0"
        and q: "save_queue (async_step e (glob s)) = drop k (save_queue (glob s))"
        by auto
      from off have "CAM_SAVE_EVERY_N (glob ?s1) = 0"
        by simp
      from Cons.IH [OF this] obtain j where
        "save_queue (glob (fst (snd (run_loop no_walkers evs ?s1)))) =
           drop j (save_queue (async_step e (glob s)))"
        by auto
      then have "save_queue (glob (fst (snd (run_loop no_walkers evs ?s1)))) =
          drop (j + k) (save_queue (glob s))"
        by (simp add: q)
      with True show ?thesis
        by (simp add: CameraFrame) blast
    next
      case (SaverIter save_ok)
      let ?s1 = "s\<lparr>glob := async_step e (glob s)\<rparr>"
      from async_step_disabled [OF Cons.prems, of e] obtain k where
        off: "CAM_SAVE_EVERY_N (async_step e (glob s)) = 0"
        and q: "save_queue (async_step e (glob s)) = drop k (save_queue (glob s))"
        by auto
      from off have "CAM_SAVE_EVERY_N (glob ?s1) = 0"
        by simp
      from Cons.IH [OF this] obtain j where
        "save_queue (glob (fst (snd (run_loop no_walkers evs ?s1)))) =
           drop j (save_queue (async_step e (glob s)))"
        by auto
      then have "save_queue (glob (fst (snd (run_loop no_walkers evs ?s1)))) =
          drop (j + k) (save_queue (glob s))"
        by (simp add: q)
      with True show ?thesis
        by (simp add: SaverIter) blast
    qed
  qed
qed

text \<open>
  C2. A camera frame that decodes (its buffer has height * width * 4 bytes) is put on the
  save queue exactly when the sampling interval \<open>N\<close> is positive and the frame number
  is a multiple of \<open>N\<close>: then one task is added, for the file named by the frame number
  padded with zeros to six digits, in the directory of the frame's stream. With \<open>N = 0\<close>
  the queue is left as it was, for every frame; the flag \<^verbatim>\<open>--no-save\<close> sets \<open>N\<close>
  to 0, no callback changes \<open>N\<close>, and over a whole run with \<open>N = 0\<close> the queue only
  loses tasks at its front: nothing is ever added.
\<close>

theorem camera_frame_sampling:
  "(length (raw_data im) = img_height im * img_width im * 4 \<and> 0 < CAM_SAVE_EVERY_N g \<longrightarrow>
      save_queue (callback store_name t im g) =
        save_queue g @
          (if img_frame im mod CAM_SAVE_EVERY_N g = 0
           then [(path_join (if store_name = ''front'' then FRONT_DIR else THIRD_DIR)
                    (format_06d (img_frame im) @ ''.png''), im)]
           else []))
   \<and> (CAM_SAVE_EVERY_N g = 0 \<longrightarrow> save_queue (callback store_name t im g) = save_queue g)
   \<and> CAM_SAVE_EVERY_N (callback store_name t im g) = CAM_SAVE_EVERY_N g
   \<and> CAM_SAVE_EVERY_N (initial_globals True t0) = 0
   \<and> (CAM_SAVE_EVERY_N (glob s) = 0 \<longrightarrow>
        (\<exists>k. save_queue (glob (fst (snd (run_loop no_walkers evs s)))) = drop k (save_queue (glob s))))"
proof -
  have sampled:
    "save_queue (callback store_name t im g) =
        save_queue g @
          (if img_frame im mod CAM_SAVE_EVERY_N g = 0
           then [(path_join (if store_name = ''front'' then FRONT_DIR else THIRD_DIR)
                    (format_06d (img_frame im) @ ''.png''), im)]
           else [])"
    if wf: "length (raw_data im) = img_height im * img_width im * 4" and pos: "0 < CAM_SAVE_EVERY_N g"
  proof -
    from wf obtain surf where "to_surface_from_image im = Inr surf"
      using decodes_when_well_formed by blast
    then show ?thesis
      using pos by (simp add: save_queue_callback_decoded)
  qed
  have off: "save_queue (callback store_name t im g) = save_queue g" if "CAM_SAVE_EVERY_N g = 0"
    using that by (simp add: save_queue_callback_disabled)
  have never: "\<exists>k. save_queue (glob (fst (snd (run_loop no_walkers evs s)))) = drop k (save_queue (glob s))"
    if "CAM_SAVE_EVERY_N (glob s) = 0"
    using that by (rule run_loop_disabled)
  have flag: "CAM_SAVE_EVERY_N (initial_globals True t0) = 0"
    by (simp add: initial_globals_def)
  from sampled off never flag CAM_SAVE_EVERY_N_callback [of store_name t im g] show ?thesis
    by blast
qed

lemma front_path_120:
  "path_join FRONT_DIR (format_06d 120 @ ''.png'') = ''carla_dataset/front_camera/000120.png''"
  by code_simp

theorem camera_frame_sampling_witness:
  "save_queue (callback ''front'' 5 (pixel_image 120) (initial_globals False 0)) =
     [(''carla_dataset/front_camera/000120.png'', pixel_image 120)]
   \<and> save_queue (callback ''third'' 5 (pixel_image 61) (initial_globals False 0)) = []
   \<and> save_queue (callback ''front'' 5 (pixel_image 120) (initial_globals True 0)) = []
   \<and> save_queue (glob (fst (snd (run_loop False
        [CameraFrame ''front'' 5 (pixel_image 120), CameraFrame ''third'' 6 (pixel_image 120)]
        (initial_state True 0))))) = []"
proof -
  note sampled = camera_frame_sampling [where im = "pixel_image 120" and g = "initial_globals False 0"
      and store_name = "''front''" and t = 5]
  note skipped = camera_frame_sampling [where im = "pixel_image 61" and g = "initial_globals False 0"
      and store_name = "''third''" and t = 5]
  note disabled = camera_frame_sampling [where im = "pixel_image 120" and g = "initial_globals True 0"
      and store_name = "''front''" and t = 5 and s = "initial_state True 0" and no_walkers = False
      and evs = "[CameraFrame ''front'' 5 (pixel_image 120), CameraFrame ''third'' 6 (pixel_image 120)]"]
  have one: "save_queue (callback ''front'' 5 (pixel_image 120) (initial_globals False 0)) =
     [(''carla_dataset/front_camera/000120.png'', pixel_image 120)]"
    using sampled by (simp add: pixel_image_simps initial_globals_simps front_path_120)
  have two: "save_queue (callback ''third'' 5 (pixel_image 61) (initial_globals False 0)) = []"
    using skipped by (simp add: pixel_image_simps initial_globals_simps)
  have three: "save_queue (callback ''front'' 5 (pixel_image 120) (initial_globals True 0)) = []"
    using disabled by (simp add: initial_globals_simps)
  have "CAM_SAVE_EVERY_N (glob (initial_state True 0)) = 0"
    by (simp add: initial_state_simps initial_globals_simps)
  with disabled have four: "save_queue (glob (fst (snd (run_loop False
        [CameraFrame ''front'' 5 (pixel_image 120), CameraFrame ''third'' 6 (pixel_image 120)]
        (initial_state True 0))))) = []"
    by (auto simp: initial_state_simps initial_globals_simps)
  from one two three four show ?thesis
    by blast
qed

subsection \<open>Staging and triggering\<close>

lemma trigger_one_step:
  "trigger_one i (s, r) sw = (s', r') \<Longrightarrow>
   (\<exists>ws. walkers s' = walkers s @ ws \<and> length ws + length r' \<le> Suc (length r))
   \<and> set r' \<subseteq> insert sw (set r)
   \<and> filter is_spawn_walker (world_log s') = filter is_spawn_walker (world_log s)
   \<and> staged_walkers s' = staged_walkers s"
  by (auto simp: trigger_one_def split: prod.splits sum.splits option.splits if_splits)


lemma trigger_fold_step:
  "foldl (trigger_one i) (s, r) sws = (s', r') \<Longrightarrow>
   (\<exists>ws. walkers s' = walkers s @ ws \<and> length ws + length r' \<le> length r + length sws)
   \<and> set r' \<subseteq> set r \<union> set sws
   \<and> filter is_spawn_walker (world_log s') = filter is_spawn_walker (world_log s)
   \<and> staged_walkers s' = staged_walkers s"
proof (induction sws arbitrary: s r)
  case Nil
  then show ?case by simp
next
  case (Cons sw sws)
  obtain s1 r1 where one: "trigger_one i (s, r) sw = (s1, r1)"
    by (cases "trigger_one i (s, r) sw")
  with Cons.prems have rest: "foldl (trigger_one i) (s1, r1) sws = (s', r')"
    by simp
  from trigger_one_step [OF one] obtain ws1 where
    w1: "walkers s1 = walkers s @ ws1" and n1: "length ws1 + length r1 \<le> Suc (length r)"
    and m1: "set r1 \<subseteq> insert sw (set r)"
    and l1: "filter is_spawn_walker (world_log s1) = filter is_spawn_walker (world_log s)"
    and g1: "staged_walkers s1 = staged_walkers s"
    by blast
  from Cons.IH [OF rest] obtain ws2 where
    w2: "walkers s' = walkers s1 @ ws2" and n2: "length ws2 + length r' \<le> length r1 + length sws"
    and m2: "set r' \<subseteq> set r1 \<union> set sws"
    and l2: "filter is_spawn_walker (world_log s') = filter is_spawn_walker (world_log s1)"
    and g2: "staged_walkers s' = staged_walkers s1"
    by blast
  have "walkers s' = walkers s @ (ws1 @ ws2)"
    by (simp add: w1 w2)
  moreover have "length (ws1 @ ws2) + length r' \<le> length r + length (sw # sws)"
    using n1 n2 by simp
  moreover have "set r' \<subseteq> set r \<union> set (sw # sws)"
    using m1 m2 by auto
  ultimately show ?case
    using l1 l2 g1 g2 by metis
qed



lemma trigger_staged_crossers: "crossers (trigger_staged i s) \<le> crossers s"
proof -
  obtain s' r' where f: "foldl (trigger_one i) (s, []) (staged_walkers s) = (s', r')"
    by (cases "foldl (trigger_one i) (s, []) (staged_walkers s)")
  from trigger_fold_step [OF f] obtain ws where
    "walkers s' = walkers s @ ws" "length ws + length r' \<le> length (staged_walkers s)"
    by auto
  then show ?thesis
    by (simp add: crossers_def trigger_staged_eq f)
qed




lemma stage_walker_crossers:
  "crossers (snd (stage_walker i s)) \<le> Suc (crossers s)"
  by (simp add: stage_walker_def crossers_def Let_def split: sum.splits option.splits list.splits)


lemma staging_due_room: "staging_due no_walkers snap s \<Longrightarrow> Suc (crossers s) \<le> MAX_CROSSERS"
  by (simp add: staging_due_def crossers_def)

lemma crossers_fields:
  "crossers (record_telemetry snap i s) = crossers s"
  "crossers (process_events evs s) = crossers s"
  "crossers (s\<lparr>glob := g\<rparr>) = crossers s"
  by (simp_all add: crossers_def record_telemetry_fields process_events_fields)

lemma tick_crossers:
  "crossers s \<le> MAX_CROSSERS \<Longrightarrow> crossers (snd (tick no_walkers i s)) \<le> MAX_CROSSERS"
proof -
  assume inv: "crossers s \<le> MAX_CROSSERS"
  let ?s0 = "process_events (events i) s"
  show ?thesis
  proof (cases "snapshot i")
    case None
    with inv show ?thesis by (simp add: snd_tick crossers_fields)
  next
    case (Some snap)
    let ?s1 = "record_telemetry snap i ?s0"
    have c1: "crossers ?s1 = crossers s"
      by (simp add: crossers_fields)
    show ?thesis
    proof (cases "watchdog_stalled (now i) (last_frame_time (glob s))")
      case True
      with Some inv show ?thesis by (simp add: snd_tick crossers_fields)
    next
      case False
      show ?thesis
      proof (cases "staging_due no_walkers snap ?s1")
        case due: True
        then have "Suc (crossers ?s1) \<le> MAX_CROSSERS"
          by (rule staging_due_room)
        then have staged: "crossers (snd (stage_walker i ?s1)) \<le> MAX_CROSSERS"
          using stage_walker_crossers [of i ?s1] by linarith
        then have "crossers (trigger_staged i (snd (stage_walker i ?s1))) \<le> MAX_CROSSERS"
          using trigger_staged_crossers [of i "snd (stage_walker i ?s1)"] by linarith
        with staged Some False due show ?thesis
          by (simp add: snd_tick Let_def)
      next
        case notdue: False
        have "crossers (trigger_staged i ?s1) \<le> MAX_CROSSERS"
          using trigger_staged_crossers [of i ?s1] c1 inv by linarith
        with Some False notdue show ?thesis
          by (simp add: snd_tick Let_def)
      qed
    qed
  qed
qed

lemma run_loop_invariant:
  assumes "P s"
    and "\<And>i s. P s \<Longrightarrow> P (snd (tick no_walkers i s))"
    and "\<And>g s. P s \<Longrightarrow> P (s\<lparr>glob := g\<rparr>)"
  shows "P (fst (snd (run_loop no_walkers evs s)))"
  using assms(1)
proof (induction evs arbitrary: s)
  case Nil
  then show ?case by simp
next
  case (Cons e evs)
  show ?case
  proof (cases e)
    case (LoopTick i)
    obtain r s' where t: "tick no_walkers i s = (r, s')"
      by (cases "tick no_walkers i s")
    have "P s'"
      using assms(2) [OF Cons.prems, of i] by (simp add: t)
    with Cons.IH [of s'] Cons.prems show ?thesis
      by (cases r) (simp_all add: LoopTick t)
  next
    case (CameraFrame store_name t im)
    with Cons.IH [OF assms(3) [OF Cons.prems]] Cons.prems show ?thesis by simp
  next
    case (SaverIter ok)
    with Cons.IH [OF assms(3) [OF Cons.prems]] Cons.prems show ?thesis by simp
  qed
qed

lemma run_loop_crossers:
  "crossers s \<le> MAX_CROSSERS \<Longrightarrow> crossers (fst (snd (run_loop no_walkers evs s))) \<le> MAX_CROSSERS"
  by (rule run_loop_invariant) (simp_all add: tick_crossers crossers_fields)

lemma trigger_prefix_crossers:
  "length (walkers (fst (foldl (trigger_one i) (s, []) (take k (staged_walkers s)))))
   + length (snd (foldl (trigger_one i) (s, []) (take k (staged_walkers s))))
   + length (drop k (staged_walkers s)) \<le> crossers s"
proof -
  obtain s' r' where f: "foldl (trigger_one i) (s, []) (take k (staged_walkers s)) = (s', r')"
    by (cases "foldl (trigger_one i) (s, []) (take k (staged_walkers s))")
  from trigger_fold_step [OF f] obtain ws where
    "walkers s' = walkers s @ ws" "length ws + length r' \<le> length (take k (staged_walkers s))"
    by auto
  then show ?thesis
    by (simp add: crossers_def f) linarith
qed

subsection \<open>The bound on crossing walkers\<close>

lemma MAX_CROSSERS_positive: "0 < MAX_CROSSERS"
  by (simp add: MAX_CROSSERS_def)

lemma initial_crossers: "crossers (initial_state no_save t0) = 0"
  by (simp add: crossers_def initial_state_simps)

text \<open>
  C5. The number of staged walkers plus the number of triggered walkers is at most
  MAX_CROSSERS (2) at every point of every run from the start of the loop, whatever the
  events: after every pass of the loop, after the staging step inside a pass, and after
  each pass of the \<^verbatim>\<open>for\<close> of lines 378-397 (counting the walkers triggered so far,
  those kept in \<open>remaining\<close> and those not yet visited). The bound is kept from every
  state that meets it.
\<close>

theorem crossers_never_exceed_max:
  "crossers (fst (snd (run_loop no_walkers evs (initial_state no_save t0)))) \<le> MAX_CROSSERS
   \<and> (crossers s \<le> MAX_CROSSERS \<longrightarrow>
        crossers (fst (snd (run_loop no_walkers evs s))) \<le> MAX_CROSSERS
        \<and> crossers (snd (tick no_walkers i s)) \<le> MAX_CROSSERS
        \<and> (staging_due no_walkers snap s \<longrightarrow> crossers (snd (stage_walker i s)) \<le> MAX_CROSSERS)
        \<and> length (walkers (fst (foldl (trigger_one i) (s, []) (take k (staged_walkers s)))))
            + length (snd (foldl (trigger_one i) (s, []) (take k (staged_walkers s))))
            + length (drop k (staged_walkers s)) \<le> MAX_CROSSERS)
   \<and> MAX_CROSSERS = 2"
proof -
  have start: "crossers (fst (snd (run_loop no_walkers evs (initial_state no_save t0)))) \<le> MAX_CROSSERS"
    by (rule run_loop_crossers) (simp add: initial_crossers)
  have staged: "crossers (snd (stage_walker i s)) \<le> MAX_CROSSERS" if "staging_due no_walkers snap s"
    using staging_due_room [OF that] stage_walker_crossers [of i s] by linarith
  have mid: "length (walkers (fst (foldl (trigger_one i) (s, []) (take k (staged_walkers s)))))
            + length (snd (foldl (trigger_one i) (s, []) (take k (staged_walkers s))))
            + length (drop k (staged_walkers s)) \<le> MAX_CROSSERS" if "crossers s \<le> MAX_CROSSERS"
    using trigger_prefix_crossers [of i s k] that by linarith
  have run: "crossers (fst (snd (run_loop no_walkers evs s))) \<le> MAX_CROSSERS"
    if "crossers s \<le> MAX_CROSSERS"
    using that by (rule run_loop_crossers)
  have pass: "crossers (snd (tick no_walkers i s)) \<le> MAX_CROSSERS" if "crossers s \<le> MAX_CROSSERS"
    using that by (rule tick_crossers)
  have two: "MAX_CROSSERS = 2"
    by (simp add: MAX_CROSSERS_def)
  from start staged mid run pass two show ?thesis
    by blast
qed

lemma first_staging:
  "snd (tick False (plain_tick 1 200) (initial_state False 0)) =
     (initial_state False 0)
       \<lparr>ego_location := Some (1, 2, 0),
        staged_walkers := [(7, 8, (10, - 2, 0), 12)], spawn_attempts := 1,
        world_log := [SpawnWalker 7, SpawnController 8 7]\<rparr>"
  by (simp add: snd_tick plain_tick_def initial_state_def initial_globals_def process_events_def
      watchdog_stalled_def NO_FRAME_TIMEOUT_def record_telemetry_eq staging_due_def MAX_CROSSERS_def
      stage_walker_def trigger_staged_def trigger_one_def JAYWALK_TRIGGER_DISTANCE_def Let_def)

theorem crossers_never_exceed_max_witness:
  "crossers (initial_state False 0) \<le> MAX_CROSSERS
   \<and> crossers (snd (tick False (plain_tick 1 200) (initial_state False 0))) = 1
   \<and> crossers (snd (tick False (plain_tick 1 200) (initial_state False 0))) \<le> MAX_CROSSERS
   \<and> staging_due False \<lparr>snap_frame = 200, elapsed_seconds = 0\<rparr> (initial_state False 0)
   \<and> crossers (snd (stage_walker (plain_tick 1 200) (initial_state False 0))) \<le> MAX_CROSSERS
   \<and> crossers (fst (snd (run_loop False [LoopTick (plain_tick 1 200), LoopTick (plain_tick 2 400),
        LoopTick (plain_tick 3 600)] (initial_state False 0)))) \<le> 2"
proof -
  note fact = crossers_never_exceed_max [where no_walkers = False and no_save = False and ?t0.0 = 0
      and evs = "[LoopTick (plain_tick 1 200), LoopTick (plain_tick 2 400), LoopTick (plain_tick 3 600)]"
      and s = "initial_state False 0" and i = "plain_tick 1 200"
      and snap = "\<lparr>snap_frame = 200, elapsed_seconds = 0\<rparr>" and k = 0]
  have start: "crossers (initial_state False 0) \<le> MAX_CROSSERS"
    by (simp add: initial_crossers)
  have due: "staging_due False \<lparr>snap_frame = 200, elapsed_seconds = 0\<rparr> (initial_state False 0)"
    by (simp add: staging_due_def initial_state_simps MAX_CROSSERS_def)
  have one: "crossers (snd (tick False (plain_tick 1 200) (initial_state False 0))) = 1"
    by (simp add: first_staging crossers_def initial_state_simps)
  from fact start due one show ?thesis
    by simp
qed

subsection \<open>A controller that cannot be attached\<close>




subsection \<open>The cap on staging is cumulative\<close>














subsection \<open>The order of the cleanup\<close>









subsection \<open>Waiting for the save queue\<close>

lemma unfinished_callback:
  "unfinished_tasks g \<le> unfinished_tasks (callback store_name t im g)"
  by (simp add: callback_def Let_def queue_put_def split: sum.splits)

lemma unfinished_saver: "unfinished_tasks g - Suc 0 \<le> unfinished_tasks (image_saver_iter save_ok g)"
  by (simp add: image_saver_iter_def split: list.splits prod.splits)

lemma unfinished_async_step:
  "unfinished_tasks g - (if is_saver_pass e then 1 else 0) \<le> unfinished_tasks (async_step e g)"
  by (cases e) (simp_all add: unfinished_callback unfinished_saver)

lemma queue_join_returns_drained:
  "queue_join evs g = Some (g', rest) \<Longrightarrow>
   unfinished_tasks g' = 0 \<and> (\<exists>seen. evs = seen @ rest)"
proof (induction evs arbitrary: g)
  case Nil
  then show ?case by (simp split: if_splits)
next
  case (Cons e evs)
  show ?case
  proof (cases "unfinished_tasks g = 0")
    case True
    with Cons.prems show ?thesis by auto
  next
    case False
    with Cons.prems have "queue_join evs (async_step e g) = Some (g', rest)"
      by simp
    from Cons.IH [OF this] obtain seen where "unfinished_tasks g' = 0" "evs = seen @ rest"
      by blast
    then have "unfinished_tasks g' = 0 \<and> e # evs = (e # seen) @ rest"
      by simp
    then show ?thesis by blast
  qed
qed

lemma queue_join_blocked:
  "length (filter is_saver_pass evs) < unfinished_tasks g \<Longrightarrow> queue_join evs g = None"
proof (induction evs arbitrary: g)
  case Nil
  then show ?case by simp
next
  case (Cons e evs)
  have "length (filter is_saver_pass evs) < unfinished_tasks (async_step e g)"
    using Cons.prems unfinished_async_step [of g e] by (simp split: if_splits)
  then have "queue_join evs (async_step e g) = None"
    by (rule Cons.IH)
  with Cons.prems show ?case by simp
qed

lemma queue_join_drains:
  "unfinished_tasks g = length (save_queue g) \<Longrightarrow> \<not> stop_saver g \<Longrightarrow>
   \<exists>g'. queue_join (replicate (length (save_queue g)) (SaverIter save_ok) @ rest) g = Some (g', rest)"
proof (induction "save_queue g" arbitrary: g)
  case Nil
  then show ?case by (cases rest) simp_all
next
  case (Cons task tasks)
  let ?g1 = "image_saver_iter save_ok g"
  have q: "save_queue g = task # tasks"
    using Cons.hyps(2) by simp
  have q1: "save_queue ?g1 = tasks" and u1: "unfinished_tasks ?g1 = length tasks"
    and s1: "\<not> stop_saver ?g1"
    using Cons.prems q by (simp_all add: image_saver_iter_def split: prod.splits)
  have "\<exists>g'. queue_join (replicate (length (save_queue ?g1)) (SaverIter save_ok) @ rest) ?g1
          = Some (g', rest)"
    using q1 u1 s1 by (intro Cons.hyps(1)) simp_all
  then show ?case
    using Cons.prems q q1 by simp
qed

lemma saver_join_has_timeout:
  "list_ex (\<lambda>a. a = SaverThreadJoin 1) (cleanup su alive batch_raises s)"
  by (simp add: cleanup_def Let_def)

text \<open>
  C8 (amended). Of the waits of the shutdown, the join of the saver thread has a timeout
  of one second; the wait for the save queue to drain has none. \<^verbatim>\<open>save_queue.join()\<close>
  returns only with no unfinished task left; it is still blocked whenever fewer passes of
  the saver have happened than there were unfinished tasks, however many other events went
  by; and when every unfinished task is in the queue and the saver has not been stopped, it
  returns after as many passes of the saver as there are tasks.
\<close>

theorem drain_wait_has_no_bound:
  "(queue_join evs g = Some (g', rest) \<longrightarrow> unfinished_tasks g' = 0 \<and> (\<exists>seen. evs = seen @ rest))
   \<and> (length (filter is_saver_pass evs) < unfinished_tasks g \<longrightarrow> queue_join evs g = None)
   \<and> (unfinished_tasks g = length (save_queue g) \<and> \<not> stop_saver g \<longrightarrow>
        (\<exists>g1. queue_join (replicate (length (save_queue g)) (SaverIter save_ok) @ rest) g
                = Some (g1, rest)))
   \<and> list_ex (\<lambda>a. a = SaverThreadJoin 1) (cleanup su alive batch_raises s)"
  using queue_join_returns_drained [of evs g g' rest] queue_join_blocked [of evs g]
    queue_join_drains [of g save_ok rest] saver_join_has_timeout [of su alive batch_raises s]
  by blast

lemma one_task_queued_simps:
  "unfinished_tasks one_task_queued = 1"
  "length (save_queue one_task_queued) = 1"
  "\<not> stop_saver one_task_queued"
  by (simp_all add: one_task_queued_def callback_def to_surface_from_image_def reshape_hw4_def
      pixel_image_def initial_globals_def queue_put_def Let_def)

theorem drain_wait_has_no_bound_witness:
  "queue_join [CameraFrame ''front'' 1 (pixel_image 1), CameraFrame ''third'' 2 (pixel_image 1)]
      one_task_queued = None
   \<and> (\<exists>g1. queue_join [SaverIter True, CameraFrame ''front'' 1 (pixel_image 1)] one_task_queued
          = Some (g1, [CameraFrame ''front'' 1 (pixel_image 1)]) \<and> unfinished_tasks g1 = 0)"
proof -
  let ?waiting = "[CameraFrame ''front'' 1 (pixel_image 1), CameraFrame ''third'' 2 (pixel_image 1)]"
  note a = drain_wait_has_no_bound [where evs = ?waiting and g = one_task_queued]
  note b = drain_wait_has_no_bound [where g = one_task_queued and save_ok = True
      and rest = "[CameraFrame ''front'' 1 (pixel_image 1)]"]
  have "length (filter is_saver_pass ?waiting) < unfinished_tasks one_task_queued"
    by (simp add: one_task_queued_simps)
  with a have "queue_join ?waiting one_task_queued = None"
    by blast
  moreover have "unfinished_tasks one_task_queued = length (save_queue one_task_queued)
      \<and> \<not> stop_saver one_task_queued"
    by (simp add: one_task_queued_simps)
  with b have "\<exists>g1. queue_join (replicate (length (save_queue one_task_queued)) (SaverIter True)
        @ [CameraFrame ''front'' 1 (pixel_image 1)]) one_task_queued
          = Some (g1, [CameraFrame ''front'' 1 (pixel_image 1)])"
    by blast
  then obtain g1 where returned:
    "queue_join [SaverIter True, CameraFrame ''front'' 1 (pixel_image 1)] one_task_queued
       = Some (g1, [CameraFrame ''front'' 1 (pixel_image 1)])"
    by (auto simp: one_task_queued_simps)
  note c = drain_wait_has_no_bound [where g = one_task_queued and g' = g1
      and evs = "[SaverIter True, CameraFrame ''front'' 1 (pixel_image 1)]"
      and rest = "[CameraFrame ''front'' 1 (pixel_image 1)]"]
  from c returned have "unfinished_tasks g1 = 0"
    by blast
  with returned have "\<exists>g1. queue_join [SaverIter True, CameraFrame ''front'' 1 (pixel_image 1)]
        one_task_queued = Some (g1, [CameraFrame ''front'' 1 (pixel_image 1)])
      \<and> unfinished_tasks g1 = 0"
    by blast
  ultimately show ?thesis by blast
qed

text \<open>
  The claim as stated fails: with one task queued, no number of events is a bound within
  which the wait for the drain is sure to have returned.
\<close>

theorem drain_wait_counterexample:
  "\<not> (\<exists>B. \<forall>evs. B \<le> length evs \<longrightarrow> queue_join evs one_task_queued \<noteq> None)"
proof
  assume "\<exists>B. \<forall>evs. B \<le> length evs \<longrightarrow> queue_join evs one_task_queued \<noteq> None"
  then obtain B where bound: "\<forall>evs. B \<le> length evs \<longrightarrow> queue_join evs one_task_queued \<noteq> None"
    by blast
  let ?evs = "replicate B (CameraFrame ''front'' 1 (pixel_image 1))"
  have "length (filter is_saver_pass ?evs) < unfinished_tasks one_task_queued"
    by (simp add: one_task_queued_simps)
  then have "queue_join ?evs one_task_queued = None"
    by (rule queue_join_blocked)
  moreover have "B \<le> length ?evs"
    by simp
  ultimately show False
    using bound by blast
qed

end
